theory Spec2Isabelle
  imports Main
begin

section \<open>Python values, dictionaries and the object store\<close>

text \<open>
  The module \<^verbatim>\<open>src/assistant/utils.py\<close> works on search results: Python dictionaries
  with string keys. The values it reads are strings or \<^verbatim>\<open>None\<close>. A Python string is
  modelled as a list of code points; the model covers the code points below 256, one
  \<^typ>\<open>char\<close> each, so \<^const>\<open>length\<close> is Python's \<^verbatim>\<open>len\<close>.

  The records are mutable objects that the caller shares with the function, and the same
  object may stand at several positions of the input list. The model therefore keeps the
  records in a store, and the input is a list of references into it.
\<close>

datatype pyval = PNone | PStr string

datatype error = KeyError string

type_synonym pydict = "string \<rightharpoonup> pyval"

type_synonym addr = nat

record world =
  store :: "addr \<Rightarrow> pydict"
  stdout :: "string list"

text \<open>\<^verbatim>\<open>d[k]\<close>: a missing key raises \<^verbatim>\<open>KeyError\<close>.\<close>

definition getitem :: "pydict \<Rightarrow> string \<Rightarrow> error + pyval" where
  "getitem d k = (case d k of None \<Rightarrow> Inl (KeyError k) | Some v \<Rightarrow> Inr v)"

text \<open>\<^verbatim>\<open>d.get(k, default)\<close>.\<close>

definition get_default :: "pydict \<Rightarrow> string \<Rightarrow> pyval \<Rightarrow> pyval" where
  "get_default d k dflt = (case d k of None \<Rightarrow> dflt | Some v \<Rightarrow> v)"

text \<open>What an f-string prints for a value: \<^verbatim>\<open>str(v)\<close>.\<close>

fun py_str :: "pyval \<Rightarrow> string" where
  "py_str PNone = ''None''"
| "py_str (PStr s) = s"

text \<open>\<^verbatim>\<open>str(n)\<close> for an integer: decimal digits, with a minus sign when negative.\<close>

fun str_nat :: "nat \<Rightarrow> string" where
  "str_nat n =
     (if n < 10 then [char_of (48 + n)]
      else str_nat (n div 10) @ [char_of (48 + n mod 10)])"

declare str_nat.simps [simp del]

definition str_int :: "int \<Rightarrow> string" where
  "str_int i = (if i < 0 then ''-'' @ str_nat (nat (- i)) else str_nat (nat i))"

text \<open>
  \<^verbatim>\<open>s[:k]\<close>: a negative bound counts from the end of the string, and the slice is
  empty when it reaches before the start.
\<close>

definition py_slice_to :: "string \<Rightarrow> int \<Rightarrow> string" where
  "py_slice_to s k =
     (if 0 \<le> k then take (nat k) s else take (nat (int (length s) + k)) s)"

text \<open>
  \<^verbatim>\<open>str.isspace\<close> on one code point below 256: tab to carriage return, the four
  separators 0x1C to 0x1F, the space, NEL (0x85) and the no-break space (0xA0).
\<close>

definition isspace :: "char \<Rightarrow> bool" where
  "isspace c =
     (let n = (of_char c :: nat)
      in (9 \<le> n \<and> n \<le> 13) \<or> (28 \<le> n \<and> n \<le> 32) \<or> n = 133 \<or> n = 160)"

text \<open>\<^verbatim>\<open>s.strip()\<close> removes the white space at both ends.\<close>

definition strip :: "string \<Rightarrow> string" where
  "strip s = rev (dropWhile isspace (rev (dropWhile isspace s)))"

text \<open>\<^verbatim>\<open>sep.join(xs)\<close>.\<close>

fun str_join :: "string \<Rightarrow> string list \<Rightarrow> string" where
  "str_join sep [] = []"
| "str_join sep [x] = x"
| "str_join sep (x # y # ys) = x @ sep @ str_join sep (y # ys)"

section \<open>\<^verbatim>\<open>deduplicate_and_format_sources\<close>\<close>

subsection \<open>The first loop: renaming the fields and deduplicating by URL\<close>

text \<open>
  The body of the first loop up to the test, on the record \<^verbatim>\<open>source\<close>:
  \<^verbatim>\<open>source["url"] = source["link"]; source["content"] = source["snippet"]\<close>, and then
  the key \<^verbatim>\<open>source["url"]\<close>. It returns the record as the statements leave it, also
  when a lookup raises half-way.
\<close>

definition rename_fields :: "pydict \<Rightarrow> (error + pyval) \<times> pydict" where
  "rename_fields source =
     (case getitem source ''link'' of
        Inl e \<Rightarrow> (Inl e, source)
      | Inr l \<Rightarrow>
          let source1 = source(''url'' \<mapsto> l) in
          (case getitem source1 ''snippet'' of
             Inl e \<Rightarrow> (Inl e, source1)
           | Inr s \<Rightarrow>
               let source2 = source1(''content'' \<mapsto> s) in
               (case getitem source2 ''url'' of
                  Inl e \<Rightarrow> (Inl e, source2)
                | Inr k \<Rightarrow> (Inr k, source2))))"

text \<open>
  \<^verbatim>\<open>unique_sources\<close> is a dictionary from URL to record, read later in insertion
  order: an association list that grows at its end, holding references to the records.
\<close>

fun dedup_loop ::
  "(addr \<Rightarrow> pydict) \<Rightarrow> (pyval \<times> addr) list \<Rightarrow> addr list
     \<Rightarrow> (error + (pyval \<times> addr) list) \<times> (addr \<Rightarrow> pydict)" where
  "dedup_loop h unique_sources [] = (Inr unique_sources, h)"
| "dedup_loop h unique_sources (a # sources_list) =
     (case rename_fields (h a) of
        (Inl e, source') \<Rightarrow> (Inl e, h(a := source'))
      | (Inr k, source') \<Rightarrow>
          if k \<notin> set (map fst unique_sources)
          then dedup_loop (h(a := source')) (unique_sources @ [(k, a)]) sources_list
          else dedup_loop (h(a := source')) unique_sources sources_list)"

subsection \<open>The second loop: rendering the retained records\<close>

text \<open>
  Lines 42 to 45: \<^verbatim>\<open>source.get("raw_content", "")\<close>, with \<^verbatim>\<open>None\<close> replaced by
  the empty string after a warning is printed. The printed lines are collected in
  \<open>out\<close>.
\<close>

definition read_raw_content :: "pydict \<Rightarrow> string list \<Rightarrow> (error + string) \<times> string list" where
  "read_raw_content source out =
     (case get_default source ''raw_content'' (PStr '''') of
        PNone \<Rightarrow>
          (case getitem source ''url'' of
             Inl e \<Rightarrow> (Inl e, out)
           | Inr u \<Rightarrow> (Inr '''', out @ [''Warning: No raw_content found for source '' @ py_str u]))
      | PStr s \<Rightarrow> (Inr s, out))"

text \<open>Lines 46 and 47: the cut at \<^verbatim>\<open>char_limit\<close> characters.\<close>

definition limit_raw_content :: "int \<Rightarrow> string \<Rightarrow> string" where
  "limit_raw_content char_limit raw_content =
     (if int (length raw_content) > char_limit
      then py_slice_to raw_content char_limit @ ''... [truncated]''
      else raw_content)"

text \<open>One pass through the body of the second loop, on the text and the output so far.\<close>

definition format_source ::
  "int \<Rightarrow> bool \<Rightarrow> pydict \<Rightarrow> string \<times> string list \<Rightarrow> (error + string) \<times> string list" where
  "format_source max_tokens_per_source include_raw_content source st =
     (case st of (formatted_text, out) \<Rightarrow>
      (case getitem source ''title'' of
         Inl e \<Rightarrow> (Inl e, out)
       | Inr t \<Rightarrow>
      (case getitem source ''url'' of
         Inl e \<Rightarrow> (Inl e, out)
       | Inr u \<Rightarrow>
      (case getitem source ''content'' of
         Inl e \<Rightarrow> (Inl e, out)
       | Inr c \<Rightarrow>
          let text3 = formatted_text
                @ ''Source '' @ py_str t @ '':\<newline>===\<newline>''
                @ ''URL: '' @ py_str u @ ''\<newline>===\<newline>''
                @ ''Most relevant content from source: '' @ py_str c @ ''\<newline>===\<newline>''
          in
          if include_raw_content then
            (case read_raw_content source out of
               (Inl e, out') \<Rightarrow> (Inl e, out')
             | (Inr raw_content, out') \<Rightarrow>
                 (Inr (text3 @ ''Full source content limited to ''
                        @ str_int max_tokens_per_source @ '' tokens: ''
                        @ limit_raw_content (max_tokens_per_source * 4) raw_content
                        @ ''\<newline>\<newline>''), out'))
          else (Inr text3, out)))))"

text \<open>
  The loop over \<^verbatim>\<open>unique_sources.values()\<close>. Each record is read through its
  reference, in the store as the first loop left it.
\<close>

fun format_loop ::
  "(addr \<Rightarrow> pydict) \<Rightarrow> int \<Rightarrow> bool \<Rightarrow> string \<times> string list \<Rightarrow> addr list
     \<Rightarrow> (error + string) \<times> string list" where
  "format_loop h m inc st [] = (Inr (fst st), snd st)"
| "format_loop h m inc st (a # as) =
     (case format_source m inc (h a) st of
        (Inl e, out) \<Rightarrow> (Inl e, out)
      | (Inr formatted_text, out) \<Rightarrow> format_loop h m inc (formatted_text, out) as)"

text \<open>
  The function: the result is the error raised or the string returned, together with the
  world it leaves behind (the records and the lines printed).
\<close>

definition deduplicate_and_format_sources ::
  "world \<Rightarrow> addr list \<Rightarrow> int \<Rightarrow> bool \<Rightarrow> (error + string) \<times> world" where
  "deduplicate_and_format_sources w search_response max_tokens_per_source include_raw_content =
     (case dedup_loop (store w) [] search_response of
        (Inl e, h) \<Rightarrow> (Inl e, w\<lparr>store := h\<rparr>)
      | (Inr unique_sources, h) \<Rightarrow>
          (case format_loop h max_tokens_per_source include_raw_content
                  (''Sources:\<newline>\<newline>'', stdout w) (map snd unique_sources) of
             (Inl e, out) \<Rightarrow> (Inl e, \<lparr>store = h, stdout = out\<rparr>)
           | (Inr formatted_text, out) \<Rightarrow>
               (Inr (strip formatted_text), \<lparr>store = h, stdout = out\<rparr>)))"

section \<open>\<^verbatim>\<open>format_sources\<close>\<close>

text \<open>
  The generator \<^verbatim>\<open>f"* {source['title']} : {source['url']}" for source in search_results\<close>,
  consumed by \<^verbatim>\<open>join\<close>: the first record without a title or a URL raises. The function
  changes no record, so it is modelled on the records' values.
\<close>

fun bullet_lines :: "pydict list \<Rightarrow> error + string list" where
  "bullet_lines [] = Inr []"
| "bullet_lines (source # rest) =
     (case getitem source ''title'' of
        Inl e \<Rightarrow> Inl e
      | Inr t \<Rightarrow>
     (case getitem source ''url'' of
        Inl e \<Rightarrow> Inl e
      | Inr u \<Rightarrow>
     (case bullet_lines rest of
        Inl e \<Rightarrow> Inl e
      | Inr ls \<Rightarrow> Inr ((''* '' @ py_str t @ '' : '' @ py_str u) # ls))))"

definition format_sources :: "pydict list \<Rightarrow> error + string" where
  "format_sources search_results =
     (case bullet_lines search_results of
        Inl e \<Rightarrow> Inl e
      | Inr ls \<Rightarrow> Inr (str_join ''\<newline>'' ls))"

section \<open>\<^verbatim>\<open>searxng_search\<close>\<close>

text \<open>
  The function builds a \<^verbatim>\<open>SearxSearchWrapper\<close> with a fixed configuration and returns
  what its method \<^verbatim>\<open>results\<close> returns. The wrapper belongs to a third-party library and
  talks to the network: building it and calling it is a parameter of the model, a
  function from the configuration, the arguments of the call and the state \<open>'n\<close> of the
  outside world to the exception raised (\<open>'e\<close>) or the list returned, and the new state
  of the world. The function has no \<^verbatim>\<open>try\<close>: an exception of the wrapper leaves it as it
  was raised. The decorator \<^verbatim>\<open>traceable\<close> only records the call and is left out.
\<close>

text \<open>
  A Python exception, as far as a caller can tell one from another: the name of its class
  and its message.
\<close>

datatype py_exception = PyException (exception_class: string) (message: string)

record searx_wrapper =
  searx_host :: string
  unsecure :: bool
  searx_k :: int
  engines :: "string list"

definition searxng_search ::
  "(searx_wrapper \<Rightarrow> string \<Rightarrow> int \<Rightarrow> bool \<Rightarrow> 'n \<Rightarrow> ('e + 'r list) \<times> 'n)
     \<Rightarrow> string \<Rightarrow> bool \<Rightarrow> int \<Rightarrow> 'n \<Rightarrow> ('e + 'r list) \<times> 'n" where
  "searxng_search results query include_raw_content max_results net =
     (let searx_search = \<lparr>searx_host = ''http://127.0.0.1:8080'', unsecure = True,
                           searx_k = max_results, engines = [''google'']\<rparr>;
          ret = results searx_search query max_results include_raw_content net
      in ret)"

text \<open>
  A backend together with a counter of the calls made to it, for stating how often
  \<^const>\<open>searxng_search\<close> calls its backend.
\<close>

definition counted ::
  "(searx_wrapper \<Rightarrow> string \<Rightarrow> int \<Rightarrow> bool \<Rightarrow> 'n \<Rightarrow> ('e + 'r list) \<times> 'n)
     \<Rightarrow> searx_wrapper \<Rightarrow> string \<Rightarrow> int \<Rightarrow> bool \<Rightarrow> 'n \<times> nat
     \<Rightarrow> ('e + 'r list) \<times> ('n \<times> nat)" where
  "counted results cfg query num_results include_raw_content st =
     (case results cfg query num_results include_raw_content (fst st) of
        (r, net') \<Rightarrow> (r, (net', Suc (snd st))))"

section \<open>What the formatter computes, stated on the records' values\<close>

text \<open>
  The definitions of this section are not translations of the source: they describe the
  result of \<^const>\<open>deduplicate_and_format_sources\<close> as a function of the list of record
  values, and the lemmas below prove that the loops compute it.
\<close>

text \<open>A record after the first loop: \<open>url\<close> holds the link and \<open>content\<close> the snippet.\<close>

definition renamed :: "pydict \<Rightarrow> pydict" where
  "renamed d = d(''url'' := d ''link'', ''content'' := d ''snippet'')"

text \<open>The key whose lookup fails first in the first loop, if any.\<close>

fun first_missing :: "pydict list \<Rightarrow> string option" where
  "first_missing [] = None"
| "first_missing (d # ds) =
     (if d ''link'' = None then Some ''link''
      else if d ''snippet'' = None then Some ''snippet''
      else first_missing ds)"

text \<open>The elements whose key was not seen before, in the order of the list.\<close>

fun first_seen :: "'k set \<Rightarrow> ('a \<Rightarrow> 'k) \<Rightarrow> 'a list \<Rightarrow> 'a list" where
  "first_seen seen key [] = []"
| "first_seen seen key (x # xs) =
     (if key x \<in> seen then first_seen seen key xs
      else x # first_seen (insert (key x) seen) key xs)"

definition link_of :: "(addr \<Rightarrow> pydict) \<Rightarrow> addr \<Rightarrow> pyval option" where
  "link_of h a = h a ''link''"

text \<open>The records that are rendered: the first record of every link, renamed.\<close>

definition retained :: "pydict list \<Rightarrow> pydict list" where
  "retained rs = map renamed (first_seen {} (\<lambda>d. d ''link'') rs)"

text \<open>The text of a field as the f-string prints it (nothing for a missing field).\<close>

definition shown :: "pydict \<Rightarrow> string \<Rightarrow> string" where
  "shown d k = (case d k of None \<Rightarrow> [] | Some v \<Rightarrow> py_str v)"

text \<open>The three lines that open a block: title, URL and snippet.\<close>

definition head_lines :: "pydict \<Rightarrow> string" where
  "head_lines d =
     ''Source '' @ shown d ''title'' @ '':\<newline>===\<newline>''
     @ ''URL: '' @ shown d ''url'' @ ''\<newline>===\<newline>''
     @ ''Most relevant content from source: '' @ shown d ''content'' @ ''\<newline>===\<newline>''"

text \<open>
  The raw body of a record: its \<open>raw_content\<close> when that is a string, and the empty
  string when the field is missing or \<^verbatim>\<open>None\<close>.
\<close>

definition raw_body :: "pydict \<Rightarrow> string" where
  "raw_body d = (case d ''raw_content'' of Some (PStr s) \<Rightarrow> s | _ \<Rightarrow> [])"

definition block :: "int \<Rightarrow> bool \<Rightarrow> pydict \<Rightarrow> string" where
  "block m inc d =
     head_lines d
     @ (if inc
        then ''Full source content limited to '' @ str_int m @ '' tokens: ''
             @ limit_raw_content (m * 4) (raw_body d) @ ''\<newline>\<newline>''
        else [])"

definition report :: "int \<Rightarrow> bool \<Rightarrow> pydict list \<Rightarrow> string" where
  "report m inc rs = strip (''Sources:\<newline>\<newline>'' @ concat (map (block m inc) (retained rs)))"

text \<open>A string without the white space at its end: what the final trim leaves of a tail.\<close>

definition rstrip :: "string \<Rightarrow> string" where
  "rstrip s = rev (dropWhile isspace (rev s))"

text \<open>The warnings printed for a list of rendered records.\<close>

definition warning_lines :: "pydict list \<Rightarrow> string list" where
  "warning_lines ds =
     map (\<lambda>d. ''Warning: No raw_content found for source '' @ shown d ''url'')
       (filter (\<lambda>d. d ''raw_content'' = Some PNone) ds)"

text \<open>
  A record as the search backend documents it: \<open>title\<close>, \<open>link\<close> and \<open>snippet\<close> are
  present.
\<close>

definition well_formed :: "pydict \<Rightarrow> bool" where
  "well_formed d \<longleftrightarrow> d ''title'' \<noteq> None \<and> d ''link'' \<noteq> None \<and> d ''snippet'' \<noteq> None"

section \<open>Example records\<close>

text \<open>
  Eight records: 0 has a raw body of 41 characters; 1 repeats the link of 0; 2 has
  \<open>raw_content\<close> set to \<^verbatim>\<open>None\<close>; 3 repeats the link of 0 and has no title; 4 has
  an empty raw body; 5 has a raw body of exactly 40 characters; 6 has a raw body of four
  characters, the last of them a space; 8 has a title and a link and no snippet. Every
  other address holds a dictionary without any key.
\<close>

definition example_store :: "addr \<Rightarrow> pydict" where
  "example_store a =
     (if a = 0 then [''title'' \<mapsto> PStr ''A'', ''link'' \<mapsto> PStr ''u1'', ''snippet'' \<mapsto> PStr ''s1'',
                     ''raw_content'' \<mapsto> PStr ''0123456789012345678901234567890123456789X'']
      else if a = 1 then [''title'' \<mapsto> PStr ''B'', ''link'' \<mapsto> PStr ''u1'', ''snippet'' \<mapsto> PStr ''s2'']
      else if a = 2 then [''title'' \<mapsto> PStr ''C'', ''link'' \<mapsto> PStr ''u2'', ''snippet'' \<mapsto> PStr ''s3'',
                     ''raw_content'' \<mapsto> PNone]
      else if a = 3 then [''link'' \<mapsto> PStr ''u1'', ''snippet'' \<mapsto> PStr ''s4'']
      else if a = 4 then [''title'' \<mapsto> PStr ''E'', ''link'' \<mapsto> PStr ''u4'', ''snippet'' \<mapsto> PStr ''s5'',
                     ''raw_content'' \<mapsto> PStr '''']
      else if a = 5 then [''title'' \<mapsto> PStr ''F'', ''link'' \<mapsto> PStr ''u5'', ''snippet'' \<mapsto> PStr ''s6'',
                     ''raw_content'' \<mapsto> PStr ''0123456789012345678901234567890123456789'']
      else if a = 6 then [''title'' \<mapsto> PStr ''G'', ''link'' \<mapsto> PStr ''u6'', ''snippet'' \<mapsto> PStr ''s7'',
                     ''raw_content'' \<mapsto> PStr ''abc '']
      else if a = 8 then [''title'' \<mapsto> PStr ''H'', ''link'' \<mapsto> PStr ''u8'']
      else Map.empty)"

definition example_world :: world where
  "example_world = \<lparr>store = example_store, stdout = []\<rparr>"

text \<open>
  A search backend for the examples: on the query \<open>down\<close> it raises the exception of
  the HTTP library for a refused connection, and it answers every other query with at
  most \<open>num_results\<close> of two records. Its world is the list of the queries sent.
\<close>

definition example_backend ::
  "searx_wrapper \<Rightarrow> string \<Rightarrow> int \<Rightarrow> bool \<Rightarrow> string list
     \<Rightarrow> (py_exception + pydict list) \<times> string list" where
  "example_backend cfg query num_results include_raw_content sent =
     (if query = ''down''
      then (Inl (PyException ''ConnectionError'' ''connection refused''), sent @ [query])
      else (Inr (take (nat num_results) [example_store 1, example_store 0]), sent @ [query]))"

section \<open>The loops compute the report\<close>

subsection \<open>The first loop\<close>

lemma rename_fields_ok:
  "d ''link'' = Some l \<Longrightarrow> d ''snippet'' = Some s \<Longrightarrow> rename_fields d = (Inr l, renamed d)"
  by (auto simp: rename_fields_def getitem_def renamed_def Let_def)

lemma rename_fields_no_link:
  "d ''link'' = None \<Longrightarrow> fst (rename_fields d) = Inl (KeyError ''link'')"
  by (simp add: rename_fields_def getitem_def)

lemma rename_fields_no_snippet:
  "d ''link'' = Some l \<Longrightarrow> d ''snippet'' = None \<Longrightarrow> fst (rename_fields d) = Inl (KeyError ''snippet'')"
  by (simp add: rename_fields_def getitem_def)

lemma renamed_link [simp]: "renamed d ''link'' = d ''link''"
  by (simp add: renamed_def)

lemma renamed_snippet [simp]: "renamed d ''snippet'' = d ''snippet''"
  by (simp add: renamed_def)

lemma renamed_idem [simp]: "renamed (renamed d) = renamed d"
  by (rule ext) (simp add: renamed_def)

lemma first_missing_cong:
  "\<forall>c\<in>set as. h' c ''link'' = h c ''link'' \<and> h' c ''snippet'' = h c ''snippet''
     \<Longrightarrow> first_missing (map h' as) = first_missing (map h as)"
  by (induction as) auto

lemma first_seen_subset: "set (first_seen seen key xs) \<subseteq> set xs"
  by (induction xs arbitrary: seen) auto

lemma first_seen_map: "first_seen seen key (map f xs) = map f (first_seen seen (key \<circ> f) xs)"
  by (induction xs arbitrary: seen) auto

lemma dedup_loop_result:
  "fst (dedup_loop h us as) =
     (case first_missing (map h as) of
        Some k \<Rightarrow> Inl (KeyError k)
      | None \<Rightarrow> Inr (us @ map (\<lambda>a. (the (link_of h a), a))
                   (first_seen (Some ` fst ` set us) (link_of h) as)))"
proof (induction as arbitrary: h us)
  case Nil
  show ?case by simp
next
  case (Cons a as)
  show ?case
  proof (cases "h a ''link''")
    case None
    then show ?thesis
      using rename_fields_no_link [of "h a"] by (simp add: split_beta split: sum.splits)
  next
    case (Some l)
    note link = this
    show ?thesis
    proof (cases "h a ''snippet''")
      case None
      then show ?thesis
        using rename_fields_no_snippet [of "h a" l] link
        by (simp add: split_beta split: sum.splits)
    next
      case (Some s)
      let ?h = "h(a := renamed (h a))"
      have same: "\<forall>c\<in>set as. ?h c ''link'' = h c ''link'' \<and> ?h c ''snippet'' = h c ''snippet''"
        by simp
      have keys: "link_of ?h = link_of h"
        by (rule ext) (simp add: link_of_def)
      have fm: "first_missing (map ?h as) = first_missing (map h as)"
        by (rule first_missing_cong [OF same])
      have la: "link_of h a = Some l"
        using link by (simp add: link_of_def)
      have mem: "l \<in> fst ` set us \<longleftrightarrow> Some l \<in> Some ` fst ` set us"
        by auto
      have step: "dedup_loop h us (a # as) =
          (if Some l \<notin> Some ` fst ` set us then dedup_loop ?h (us @ [(l, a)]) as
           else dedup_loop ?h us as)"
        using rename_fields_ok [OF link Some] mem by simp
      show ?thesis
        unfolding step using link Some Cons.IH [of ?h]
        by (simp add: fm keys la image_Un del: fun_upd_apply split: option.splits)
    qed
  qed
qed

lemma dedup_loop_store:
  "first_missing (map h as) = None \<Longrightarrow>
   snd (dedup_loop h us as) = (\<lambda>c. if c \<in> set as then renamed (h c) else h c)"
proof (induction as arbitrary: h us)
  case Nil
  show ?case by simp
next
  case (Cons a as)
  from Cons.prems obtain l s where link: "h a ''link'' = Some l" and snip: "h a ''snippet'' = Some s"
    and rest: "first_missing (map h as) = None"
    by (auto split: if_splits)
  let ?h = "h(a := renamed (h a))"
  have same: "\<forall>c\<in>set as. ?h c ''link'' = h c ''link'' \<and> ?h c ''snippet'' = h c ''snippet''"
    by simp
  have "first_missing (map ?h as) = first_missing (map h as)"
    by (rule first_missing_cong [OF same])
  then have fm: "first_missing (map ?h as) = None"
    by (simp only: rest)
  have "(\<lambda>c. if c \<in> set as then renamed (?h c) else ?h c)
      = (\<lambda>c. if c \<in> set (a # as) then renamed (h c) else h c)"
    by (rule ext) simp
  then show ?case
    using rename_fields_ok [OF link snip] Cons.IH [OF fm] by (simp del: fun_upd_apply)
qed

subsection \<open>The second loop\<close>

lemma read_raw_content_ok:
  "d ''url'' = Some u \<Longrightarrow>
   read_raw_content d out = (Inr (raw_body d), out @ warning_lines [d])"
  by (simp add: read_raw_content_def get_default_def getitem_def raw_body_def
      warning_lines_def shown_def split: option.splits pyval.splits)

lemma format_source_ok:
  assumes "d ''title'' = Some t" and "d ''url'' = Some u" and "d ''content'' = Some c"
  shows "format_source m inc d (acc, out) =
     (Inr (acc @ block m inc d), out @ (if inc then warning_lines [d] else []))"
  using assms read_raw_content_ok [of d u out]
  by (simp add: format_source_def getitem_def block_def head_lines_def shown_def)

lemma format_source_no_title:
  "d ''title'' = None \<Longrightarrow> format_source m inc d st = (Inl (KeyError ''title''), snd st)"
  by (simp add: format_source_def getitem_def split_beta)

lemma format_loop_result:
  "\<forall>a\<in>set as. h a ''url'' \<noteq> None \<and> h a ''content'' \<noteq> None \<Longrightarrow>
   fst (format_loop h m inc (acc, out) as) =
     (if \<forall>d\<in>set (map h as). d ''title'' \<noteq> None
      then Inr (acc @ concat (map (block m inc) (map h as)))
      else Inl (KeyError ''title''))"
proof (induction as arbitrary: acc out)
  case Nil
  show ?case by simp
next
  case (Cons a as)
  show ?case
  proof (cases "h a ''title''")
    case None
    then show ?thesis
      by (auto simp: format_source_no_title)
  next
    case (Some t)
    from Cons.prems obtain u c where "h a ''url'' = Some u" and "h a ''content'' = Some c"
      by auto
    from format_source_ok [of "h a" t u c] Some this Cons.IH Cons.prems
    show ?thesis by simp
  qed
qed

lemma format_loop_stdout:
  "\<forall>a\<in>set as. h a ''title'' \<noteq> None \<and> h a ''url'' \<noteq> None \<and> h a ''content'' \<noteq> None \<Longrightarrow>
   snd (format_loop h m inc (acc, out) as) =
     out @ (if inc then warning_lines (map h as) else [])"
proof (induction as arbitrary: acc out)
  case Nil
  show ?case by (simp add: warning_lines_def)
next
  case (Cons a as)
  from Cons.prems obtain t u c where "h a ''title'' = Some t" and "h a ''url'' = Some u"
    and "h a ''content'' = Some c"
    by auto
  from format_source_ok [of "h a" t u c] this Cons.IH Cons.prems
  show ?case by (simp add: warning_lines_def)
qed

subsection \<open>The whole function\<close>

lemma renamed_url: "renamed d ''url'' = d ''link''"
  by (simp add: renamed_def)

lemma renamed_content: "renamed d ''content'' = d ''snippet''"
  by (simp add: renamed_def)

lemma renamed_title [simp]: "renamed d ''title'' = d ''title''"
  by (simp add: renamed_def)

lemma renamed_raw_content [simp]: "renamed d ''raw_content'' = d ''raw_content''"
  by (simp add: renamed_def)

lemma first_missing_None:
  "first_missing rs = None \<longleftrightarrow> (\<forall>d\<in>set rs. d ''link'' \<noteq> None \<and> d ''snippet'' \<noteq> None)"
  by (induction rs) auto

lemma retained_of_store:
  "map (\<lambda>c. if c \<in> set as then renamed (h c) else h c) (first_seen {} (link_of h) as)
     = retained (map h as)"
proof -
  have sub: "set (first_seen {} (link_of h) as) \<subseteq> set as"
    by (rule first_seen_subset)
  have key: "(\<lambda>d. d ''link'') \<circ> h = link_of h"
    by (rule ext) (simp add: link_of_def)
  have "map (\<lambda>c. if c \<in> set as then renamed (h c) else h c) (first_seen {} (link_of h) as)
      = map (\<lambda>c. renamed (h c)) (first_seen {} (link_of h) as)"
    using sub by (intro map_cong refl) auto
  also have "\<dots> = map renamed (map h (first_seen {} (link_of h) as))"
    by simp
  also have "\<dots> = retained (map h as)"
    by (simp only: retained_def first_seen_map key)
  finally show ?thesis .
qed

lemma retained_fields:
  "first_missing rs = None \<Longrightarrow> d \<in> set (retained rs) \<Longrightarrow>
   d ''url'' \<noteq> None \<and> d ''content'' \<noteq> None"
  using first_seen_subset [of "{}" "\<lambda>d. d ''link''" rs]
  by (auto simp: retained_def first_missing_None renamed_url renamed_content)

lemma format_result:
  "fst (deduplicate_and_format_sources w as m inc) =
     (case first_missing (map (store w) as) of
        Some k \<Rightarrow> Inl (KeyError k)
      | None \<Rightarrow>
          if \<forall>d\<in>set (retained (map (store w) as)). d ''title'' \<noteq> None
          then Inr (report m inc (map (store w) as))
          else Inl (KeyError ''title''))"
proof (cases "first_missing (map (store w) as)")
  case (Some k)
  then have "fst (dedup_loop (store w) [] as) = Inl (KeyError k)"
    by (simp add: dedup_loop_result)
  then show ?thesis
    using Some by (simp add: deduplicate_and_format_sources_def split_beta split: prod.splits sum.splits)
next
  case None
  let ?h = "store w"
  let ?us = "first_seen {} (link_of ?h) as"
  let ?h2 = "\<lambda>c. if c \<in> set as then renamed (?h c) else ?h c"
  obtain r h2 where run: "dedup_loop ?h [] as = (r, h2)"
    by (cases "dedup_loop ?h [] as")
  have r: "r = Inr (map (\<lambda>a. (the (link_of ?h a), a)) ?us)"
    using dedup_loop_result [of ?h "[]" as] None run by simp
  have h2: "h2 = ?h2"
    using dedup_loop_store [OF None, of "[]"] run by simp
  have vals: "map h2 ?us = retained (map ?h as)"
    unfolding h2 by (rule retained_of_store)
  have fields: "\<forall>a\<in>set ?us. h2 a ''url'' \<noteq> None \<and> h2 a ''content'' \<noteq> None"
  proof
    fix a assume "a \<in> set ?us"
    then have "h2 a \<in> set (map h2 ?us)" by simp
    then show "h2 a ''url'' \<noteq> None \<and> h2 a ''content'' \<noteq> None"
      unfolding vals by (rule retained_fields [OF None])
  qed
  have loop: "fst (format_loop h2 m inc (''Sources:\<newline>\<newline>'', stdout w) ?us) =
     (if \<forall>d\<in>set (retained (map ?h as)). d ''title'' \<noteq> None
      then Inr (''Sources:\<newline>\<newline>'' @ concat (map (block m inc) (retained (map ?h as))))
      else Inl (KeyError ''title''))"
    using format_loop_result [OF fields] unfolding vals .
  have snd_us: "map snd (map (\<lambda>a. (the (link_of ?h a), a)) ?us) = ?us"
    by (simp add: comp_def)
  show ?thesis
    using None loop
    by (simp add: deduplicate_and_format_sources_def run r snd_us report_def split_beta
        del: map_map split: sum.splits)
qed

lemma format_store:
  assumes "first_missing (map (store w) as) = None"
  shows "store (snd (deduplicate_and_format_sources w as m inc)) =
     (\<lambda>c. if c \<in> set as then renamed (store w c) else store w c)"
proof -
  obtain r h2 where run: "dedup_loop (store w) [] as = (r, h2)"
    by (cases "dedup_loop (store w) [] as")
  have h2: "h2 = (\<lambda>c. if c \<in> set as then renamed (store w c) else store w c)"
    using dedup_loop_store [OF assms, of "[]"] run by simp
  have "store (snd (deduplicate_and_format_sources w as m inc)) = h2"
    by (simp add: deduplicate_and_format_sources_def run split_beta split: sum.splits)
  then show ?thesis by (simp only: h2)
qed

lemma format_stdout:
  assumes "first_missing (map (store w) as) = None"
    and "\<forall>d\<in>set (retained (map (store w) as)). d ''title'' \<noteq> None"
  shows "stdout (snd (deduplicate_and_format_sources w as m inc)) =
     stdout w @ (if inc then warning_lines (retained (map (store w) as)) else [])"
proof -
  let ?h = "store w"
  let ?us = "first_seen {} (link_of ?h) as"
  obtain r h2 where run: "dedup_loop ?h [] as = (r, h2)"
    by (cases "dedup_loop ?h [] as")
  have r: "r = Inr (map (\<lambda>a. (the (link_of ?h a), a)) ?us)"
    using dedup_loop_result [of ?h "[]" as] assms(1) run by simp
  have h2: "h2 = (\<lambda>c. if c \<in> set as then renamed (?h c) else ?h c)"
    using dedup_loop_store [OF assms(1), of "[]"] run by simp
  have vals: "map h2 ?us = retained (map ?h as)"
    unfolding h2 by (rule retained_of_store)
  have fields: "\<forall>a\<in>set ?us. h2 a ''title'' \<noteq> None \<and> h2 a ''url'' \<noteq> None \<and> h2 a ''content'' \<noteq> None"
  proof
    fix a assume "a \<in> set ?us"
    then have mem: "h2 a \<in> set (retained (map ?h as))"
      unfolding vals [symmetric] by simp
    with assms(2) retained_fields [OF assms(1) mem]
    show "h2 a ''title'' \<noteq> None \<and> h2 a ''url'' \<noteq> None \<and> h2 a ''content'' \<noteq> None"
      by blast
  qed
  have snd_us: "map snd (map (\<lambda>a. (the (link_of ?h a), a)) ?us) = ?us"
    by (simp add: comp_def)
  obtain r2 out2 where fl:
    "format_loop h2 m inc (''Sources:\<newline>\<newline>'', stdout w) ?us = (r2, out2)"
    by (cases "format_loop h2 m inc (''Sources:\<newline>\<newline>'', stdout w) ?us")
  have "out2 = stdout w @ (if inc then warning_lines (retained (map ?h as)) else [])"
    using format_loop_stdout [OF fields, of m inc "''Sources:\<newline>\<newline>''" "stdout w"]
    unfolding vals fl by simp
  moreover have "stdout (snd (deduplicate_and_format_sources w as m inc)) = out2"
    by (simp add: deduplicate_and_format_sources_def run r snd_us fl
        del: map_map split: sum.splits)
  ultimately show ?thesis by simp
qed

lemma retained_subset: "d \<in> set (retained rs) \<Longrightarrow> \<exists>r\<in>set rs. d = renamed r"
  using first_seen_subset [of "{}" "\<lambda>d. d ''link''" rs] by (auto simp: retained_def)

lemma format_well_formed:
  assumes "\<forall>a\<in>set as. well_formed (store w a)"
  shows "fst (deduplicate_and_format_sources w as m inc) = Inr (report m inc (map (store w) as))"
proof -
  have fm: "first_missing (map (store w) as) = None"
    using assms by (simp add: first_missing_None well_formed_def)
  have "\<forall>d\<in>set (retained (map (store w) as)). d ''title'' \<noteq> None"
    using assms by (auto dest!: retained_subset simp: well_formed_def)
  then show ?thesis
    by (simp add: format_result fm)
qed

lemma limit_raw_content_nonneg:
  "0 \<le> m \<Longrightarrow> limit_raw_content (m * 4) s =
     (if 4 * m < int (length s) then take (nat (4 * m)) s @ ''... [truncated]'' else s)"
  by (simp add: limit_raw_content_def py_slice_to_def mult.commute)

lemma str_int_10: "str_int 10 = ''10''"
  by code_simp

lemma first_missing_Some:
  "first_missing rs = Some k \<Longrightarrow> k = ''link'' \<or> k = ''snippet''"
  by (induction rs) (auto split: if_splits)

lemma block_empty_body:
  assumes "0 \<le> m"
    and "d ''raw_content'' = None \<or> d ''raw_content'' = Some PNone \<or> d ''raw_content'' = Some (PStr '''')"
  shows "block m True d =
     head_lines d @ ''Full source content limited to '' @ str_int m @ '' tokens: '' @ ''\<newline>\<newline>''"
proof -
  have "raw_body d = []"
    using assms(2) by (auto simp: raw_body_def)
  then show ?thesis
    using assms(1) by (simp add: block_def limit_raw_content_nonneg)
qed



lemma first_seen_index:
  "first_seen seen key xs =
     map (\<lambda>i. xs ! i)
       (filter (\<lambda>i. key (xs ! i) \<notin> seen \<and> (\<forall>j<i. key (xs ! j) \<noteq> key (xs ! i)))
          [0..<length xs])"
proof (induction xs arbitrary: seen)
  case Nil
  show ?case by simp
next
  case (Cons x xs)
  have upt: "[0..<length (x # xs)] = 0 # map Suc [0..<length xs]"
    by (simp add: upt_conv_Cons map_Suc_upt del: upt_Suc)
  show ?case
  proof (cases "key x \<in> seen")
    case True
    have "filter (\<lambda>i. key (xs ! i) \<notin> seen \<and> key x \<noteq> key (xs ! i)
              \<and> (\<forall>j<i. key (xs ! j) \<noteq> key (xs ! i))) [0..<length xs]
        = filter (\<lambda>i. key (xs ! i) \<notin> seen \<and> (\<forall>j<i. key (xs ! j) \<noteq> key (xs ! i)))
            [0..<length xs]"
      using True by (intro filter_cong refl) auto
    then show ?thesis
      unfolding upt using True Cons.IH [of seen]
      by (simp add: filter_map comp_def All_less_Suc2)
  next
    case False
    have "filter (\<lambda>i. key (xs ! i) \<notin> seen \<and> key x \<noteq> key (xs ! i)
              \<and> (\<forall>j<i. key (xs ! j) \<noteq> key (xs ! i))) [0..<length xs]
        = filter (\<lambda>i. key (xs ! i) \<notin> insert (key x) seen
              \<and> (\<forall>j<i. key (xs ! j) \<noteq> key (xs ! i))) [0..<length xs]"
      by (intro filter_cong refl) auto
    then show ?thesis
      unfolding upt using False Cons.IH [of "insert (key x) seen"]
      by (simp add: filter_map comp_def All_less_Suc2)
  qed
qed

lemma strip_banner:
  "strip (''Sources:\<newline>\<newline>'' @ s) =
     ''Sources:'' @ rev (dropWhile isspace (rev (''\<newline>\<newline>'' @ s)))"
proof -
  have a: "dropWhile isspace (''Sources:\<newline>\<newline>'' @ s) = ''Sources:\<newline>\<newline>'' @ s"
    by (simp add: isspace_def)
  have b: "dropWhile isspace (xs @ rev ''Sources:'') = dropWhile isspace xs @ rev ''Sources:''" for xs
    by (induction xs) (simp_all add: isspace_def)
  have "rev (''Sources:\<newline>\<newline>'' @ s) = rev (''\<newline>\<newline>'' @ s) @ rev ''Sources:''"
    by simp
  then show ?thesis
    unfolding strip_def a by (simp only: b rev_append rev_rev_ident)
qed

lemma strip_last: "strip s \<noteq> [] \<Longrightarrow> \<not> isspace (last (strip s))"
proof -
  assume ne: "strip s \<noteq> []"
  let ?d = "dropWhile isspace (rev (dropWhile isspace s))"
  from ne have "?d \<noteq> []"
    by (simp add: strip_def)
  then have "\<not> isspace (hd ?d)"
    by (rule hd_dropWhile)
  moreover have "last (strip s) = hd ?d"
    using \<open>?d \<noteq> []\<close> by (simp add: strip_def last_rev)
  ultimately show ?thesis by simp
qed

lemma retained_renamed: "retained (map renamed rs) = retained rs"
proof -
  have "(\<lambda>d. d ''link'') \<circ> renamed = (\<lambda>d. d ''link'')"
    by (rule ext) simp
  then show ?thesis
    by (simp add: retained_def first_seen_map)
qed

lemma well_formed_renamed [simp]: "well_formed (renamed d) = well_formed d"
  by (simp add: well_formed_def)

lemma bullet_lines_ok:
  "\<forall>d\<in>set rs. d ''title'' \<noteq> None \<and> d ''url'' \<noteq> None \<Longrightarrow>
   bullet_lines rs = Inr (map (\<lambda>d. ''* '' @ shown d ''title'' @ '' : '' @ shown d ''url'') rs)"
  by (induction rs) (auto simp: getitem_def shown_def)

lemma str_join_sep:
  "ls \<noteq> [] \<Longrightarrow> str_join sep ls @ sep = concat (map (\<lambda>l. l @ sep) ls)"
  by (induction sep ls rule: str_join.induct) simp_all

lemma rstrip_nonspace: "\<not> isspace c \<Longrightarrow> rstrip (xs @ c # ys) = xs @ c # rstrip ys"
  by (simp add: rstrip_def dropWhile_append)

lemma rstrip_newlines: "rstrip (ys @ ''\<newline>\<newline>'') = rstrip ys"
  by (simp add: rstrip_def isspace_def)

lemma rstrip_id: "s \<noteq> [] \<Longrightarrow> \<not> isspace (last s) \<Longrightarrow> rstrip s = s"
  using rstrip_nonspace [of "last s" "butlast s" "[]"] by (simp add: rstrip_def)

lemma rstrip_space_body:
  "rstrip ('' '' @ s) = (if rstrip s = [] then [] else '' '' @ rstrip s)"
  by (simp add: rstrip_def dropWhile_append dropWhile_eq_Nil_conv isspace_def)

lemma strip_report_last:
  "strip (''Sources:\<newline>\<newline>'' @ X @ P @ '' tokens: '' @ B @ ''\<newline>\<newline>'') =
     ''Sources:\<newline>\<newline>'' @ X @ P @ '' tokens:'' @ rstrip ('' '' @ B)"
proof -
  let ?s = "''Sources:\<newline>\<newline>'' @ X @ P @ '' tokens: '' @ B @ ''\<newline>\<newline>''"
  have "dropWhile isspace ?s = ?s"
    by (simp add: isspace_def)
  then have "strip ?s = rstrip ?s"
    by (simp only: strip_def rstrip_def)
  also have "?s = (''Sources:\<newline>\<newline>'' @ X @ P @ '' tokens'') @ CHR '':'' # ('' '' @ B @ ''\<newline>\<newline>'')"
    by simp
  also have "rstrip \<dots> = (''Sources:\<newline>\<newline>'' @ X @ P @ '' tokens'') @ CHR '':'' # rstrip ('' '' @ B @ ''\<newline>\<newline>'')"
    by (rule rstrip_nonspace) (simp add: isspace_def)
  also have "rstrip ('' '' @ B @ ''\<newline>\<newline>'') = rstrip ('' '' @ B)"
    using rstrip_newlines [of "'' '' @ B"] by simp
  finally show ?thesis by simp
qed

lemma rename_fields_failed:
  "d ''link'' = None \<or> d ''snippet'' = None \<Longrightarrow>
   (\<exists>e. fst (rename_fields d) = Inl e)
   \<and> snd (rename_fields d) = (if d ''link'' = None then d else d(''url'' := d ''link''))"
  by (auto simp: rename_fields_def getitem_def Let_def split: option.splits)

lemma dedup_loop_store_failed:
  assumes "\<forall>x\<in>set xs. h x ''link'' \<noteq> None \<and> h x ''snippet'' \<noteq> None"
    and "h a ''link'' = None \<or> h a ''snippet'' = None"
  shows "snd (dedup_loop h us (xs @ a # ys)) =
     (\<lambda>c. if c \<in> set xs then renamed (h c)
          else if c = a \<and> h a ''link'' \<noteq> None then (h a)(''url'' := h a ''link'')
          else h c)"
  using assms
proof (induction xs arbitrary: h us)
  case Nil
  from rename_fields_failed [OF Nil.prems(2)] obtain e where
    e: "fst (rename_fields (h a)) = Inl e" and
    s: "snd (rename_fields (h a)) = (if h a ''link'' = None then h a else (h a)(''url'' := h a ''link''))"
    by blast
  obtain r d' where rf: "rename_fields (h a) = (r, d')"
    by (cases "rename_fields (h a)")
  with e s have "r = Inl e" and "d' = (if h a ''link'' = None then h a else (h a)(''url'' := h a ''link''))"
    by simp_all
  with rf show ?case
    by (auto simp: fun_eq_iff)
next
  case (Cons x xs)
  from Cons.prems obtain l s where link: "h x ''link'' = Some l" and snip: "h x ''snippet'' = Some s"
    by auto
  from Cons.prems link have ne: "a \<noteq> x"
    by auto
  let ?h = "h(x := renamed (h x))"
  have p1: "\<forall>y\<in>set xs. ?h y ''link'' \<noteq> None \<and> ?h y ''snippet'' \<noteq> None"
    using Cons.prems(1) by simp
  have p2: "?h a ''link'' = None \<or> ?h a ''snippet'' = None"
    using Cons.prems(2) ne by simp
  have step: "snd (dedup_loop h us ((x # xs) @ a # ys)) =
      (\<lambda>c. if c \<in> set xs then renamed (?h c)
          else if c = a \<and> ?h a ''link'' \<noteq> None then (?h a)(''url'' := ?h a ''link'')
          else ?h c)"
    using rename_fields_ok [OF link snip] Cons.IH [OF p1 p2]
    by (simp del: fun_upd_apply)
  show ?case
    unfolding step using ne by (auto simp: fun_eq_iff)
qed

lemma format_store_loop:
  "store (snd (deduplicate_and_format_sources w as m inc)) = snd (dedup_loop (store w) [] as)"
  by (simp add: deduplicate_and_format_sources_def split_beta split: sum.splits)

lemma returned_no_missing:
  "fst (deduplicate_and_format_sources w as m inc) = Inr out \<Longrightarrow>
   first_missing (map (store w) as) = None"
  by (simp add: format_result split: option.splits)

section \<open>The properties of the specification\<close>

text \<open>
  C10. On the empty list the function returns exactly \<open>Sources:\<close>, the banner without
  its two newlines, whatever the token budget and the flag are; it changes no record and
  prints nothing.
\<close>

theorem format_empty: "deduplicate_and_format_sources w [] m inc = (Inr ''Sources:'', w)"
  by (simp add: deduplicate_and_format_sources_def strip_def isspace_def)

text \<open>
  C9 (as the code has it). A record without \<open>link\<close> or without \<open>snippet\<close>, wherever
  it stands in the input, makes the function raise \<^verbatim>\<open>KeyError\<close> for the key whose lookup
  fails first; when every record has both, a retained record (the first of its link)
  without \<open>title\<close> makes it raise \<^verbatim>\<open>KeyError\<close> for \<open>title\<close>; otherwise the report is
  returned. No default is substituted for a missing field. The title of a record that is
  dropped as a duplicate is never looked up.
\<close>

theorem missing_field_raises:
  assumes "rs = map (store w) as"
  shows "((\<exists>d\<in>set rs. d ''link'' = None \<or> d ''snippet'' = None) \<longrightarrow>
            fst (deduplicate_and_format_sources w as m inc) = Inl (KeyError ''link'')
          \<or> fst (deduplicate_and_format_sources w as m inc) = Inl (KeyError ''snippet''))
       \<and> (\<forall>k. first_missing rs = Some k \<longrightarrow>
            fst (deduplicate_and_format_sources w as m inc) = Inl (KeyError k))
       \<and> ((\<forall>d\<in>set rs. d ''link'' \<noteq> None \<and> d ''snippet'' \<noteq> None)
            \<and> (\<exists>d\<in>set (retained rs). d ''title'' = None) \<longrightarrow>
            fst (deduplicate_and_format_sources w as m inc) = Inl (KeyError ''title''))
       \<and> ((\<forall>d\<in>set rs. d ''link'' \<noteq> None \<and> d ''snippet'' \<noteq> None)
            \<and> (\<forall>d\<in>set (retained rs). d ''title'' \<noteq> None) \<longrightarrow>
            fst (deduplicate_and_format_sources w as m inc) = Inr (report m inc rs))"
proof (cases "first_missing rs")
  case None
  then have ok: "\<forall>d\<in>set rs. d ''link'' \<noteq> None \<and> d ''snippet'' \<noteq> None"
    by (simp add: first_missing_None)
  have "fst (deduplicate_and_format_sources w as m inc) =
      (if \<forall>d\<in>set (retained rs). d ''title'' \<noteq> None
       then Inr (report m inc rs) else Inl (KeyError ''title''))"
    using None format_result [of w as m inc] by (simp add: assms)
  with ok None show ?thesis by auto
next
  case (Some k)
  then have bad: "\<not> (\<forall>d\<in>set rs. d ''link'' \<noteq> None \<and> d ''snippet'' \<noteq> None)"
    using first_missing_None [of rs] by simp
  have "fst (deduplicate_and_format_sources w as m inc) = Inl (KeyError k)"
    using Some format_result [of w as m inc] by (simp add: assms)
  with first_missing_Some [OF Some] bad Some show ?thesis by auto
qed

theorem missing_field_raises_witness:
  "(\<exists>d\<in>set (map (store example_world) [0, 7]). d ''link'' = None \<or> d ''snippet'' = None)
   \<and> fst (deduplicate_and_format_sources example_world [0, 7] 10 True) = Inl (KeyError ''link'')
   \<and> store example_world 3 ''link'' \<noteq> None \<and> store example_world 3 ''snippet'' \<noteq> None
   \<and> store example_world 0 ''link'' \<noteq> None \<and> store example_world 0 ''snippet'' \<noteq> None
   \<and> (\<exists>d\<in>set (retained (map (store example_world) [3, 0])). d ''title'' = None)
   \<and> fst (deduplicate_and_format_sources example_world [3, 0] 10 True) = Inl (KeyError ''title'')"
proof -
  have a: "\<exists>d\<in>set (map (store example_world) [0, 7]). d ''link'' = None \<or> d ''snippet'' = None"
    by (simp add: example_world_def example_store_def)
  have fm: "first_missing (map (store example_world) [0, 7]) = Some ''link''"
    by (simp add: example_world_def example_store_def)
  have b1: "\<forall>d\<in>set (map (store example_world) [3, 0]). d ''link'' \<noteq> None \<and> d ''snippet'' \<noteq> None"
    by (simp add: example_world_def example_store_def)
  have ret: "retained (map (store example_world) [3, 0]) = [renamed (example_store 3)]"
    by (simp add: example_world_def example_store_def retained_def)
  have b2: "\<exists>d\<in>set (retained (map (store example_world) [3, 0])). d ''title'' = None"
    unfolding ret by (simp add: example_store_def)
  note t1 = missing_field_raises [OF refl, of example_world "[0, 7]" 10 True]
  note t2 = missing_field_raises [OF refl, of example_world "[3, 0]" 10 True]
  have one: "fst (deduplicate_and_format_sources example_world [0, 7] 10 True) = Inl (KeyError ''link'')"
    by (rule t1 [THEN conjunct2, THEN conjunct1, THEN spec, THEN mp, OF fm])
  have two: "fst (deduplicate_and_format_sources example_world [3, 0] 10 True) = Inl (KeyError ''title'')"
    by (rule t2 [THEN conjunct2, THEN conjunct2, THEN conjunct1, THEN mp, OF conjI [OF b1 b2]])
  from b1 have "store example_world 3 ''link'' \<noteq> None \<and> store example_world 3 ''snippet'' \<noteq> None
   \<and> store example_world 0 ''link'' \<noteq> None \<and> store example_world 0 ''snippet'' \<noteq> None"
    by simp
  with a one b2 two show ?thesis
    by (intro conjI) simp_all
qed

text \<open>
  C9 as stated fails: record 3 of the examples has no title, it repeats the link of
  record 0, and the call on the two returns the report of record 0.
\<close>

theorem missing_title_counterexample:
  "store example_world 3 ''title'' = None
   \<and> fst (deduplicate_and_format_sources example_world [0, 3] 10 False) =
       Inr ''Sources:\<newline>\<newline>Source A:\<newline>===\<newline>URL: u1\<newline>===\<newline>Most relevant content from source: s1\<newline>===''"
proof -
  have "\<forall>d\<in>set (retained (map (store example_world) [0, 3])). d ''title'' \<noteq> None"
    by (simp add: example_world_def example_store_def retained_def)
  moreover have "first_missing (map (store example_world) [0, 3]) = None"
    by (simp add: example_world_def example_store_def)
  ultimately have "fst (deduplicate_and_format_sources example_world [0, 3] 10 False) =
      Inr (report 10 False (map (store example_world) [0, 3]))"
    by (simp add: format_result)
  moreover have "report 10 False (map (store example_world) [0, 3]) =
      ''Sources:\<newline>\<newline>Source A:\<newline>===\<newline>URL: u1\<newline>===\<newline>Most relevant content from source: s1\<newline>===''"
    by (simp add: report_def retained_def block_def head_lines_def shown_def renamed_def
        example_world_def example_store_def strip_def isspace_def)
  ultimately show ?thesis
    by (simp add: example_world_def example_store_def)
qed

text \<open>
  C3 (as the code has it). With the raw content included, a token budget that is not
  negative and well-formed records, the call returns the report of all retained records:
  nothing aborts it. A retained record whose \<open>raw_content\<close> is missing, is \<^verbatim>\<open>None\<close> or
  is the empty string gets an empty body. A warning that names the record's URL is
  printed for exactly the retained records whose \<open>raw_content\<close> is \<^verbatim>\<open>None\<close>, in their
  order; a missing field and an empty string print nothing.
\<close>

theorem missing_raw_content:
  assumes "0 \<le> m" and "\<forall>a\<in>set as. well_formed (store w a)"
    and "rs = retained (map (store w) as)"
  shows "fst (deduplicate_and_format_sources w as m True) =
       Inr (strip (''Sources:\<newline>\<newline>'' @ concat (map (block m True) rs)))
     \<and> (\<forall>d. d ''raw_content'' = None \<or> d ''raw_content'' = Some PNone
              \<or> d ''raw_content'' = Some (PStr '''') \<longrightarrow>
            block m True d =
              head_lines d @ ''Full source content limited to '' @ str_int m @ '' tokens: ''
              @ ''\<newline>\<newline>'')
     \<and> stdout (snd (deduplicate_and_format_sources w as m True)) =
         stdout w @ map (\<lambda>d. ''Warning: No raw_content found for source '' @ shown d ''url'')
                      (filter (\<lambda>d. d ''raw_content'' = Some PNone) rs)"
proof -
  have fm: "first_missing (map (store w) as) = None"
    using assms(2) by (simp add: first_missing_None well_formed_def)
  have titles: "\<forall>d\<in>set (retained (map (store w) as)). d ''title'' \<noteq> None"
    using assms(2) by (auto dest!: retained_subset simp: well_formed_def)
  have one: "fst (deduplicate_and_format_sources w as m True) =
       Inr (strip (''Sources:\<newline>\<newline>'' @ concat (map (block m True) rs)))"
    using format_well_formed [OF assms(2), of m True] by (simp add: report_def assms(3))
  have two: "\<forall>d. d ''raw_content'' = None \<or> d ''raw_content'' = Some PNone
              \<or> d ''raw_content'' = Some (PStr '''') \<longrightarrow>
            block m True d =
              head_lines d @ ''Full source content limited to '' @ str_int m @ '' tokens: ''
              @ ''\<newline>\<newline>''"
    using block_empty_body [OF assms(1)] by blast
  have three: "stdout (snd (deduplicate_and_format_sources w as m True)) =
         stdout w @ map (\<lambda>d. ''Warning: No raw_content found for source '' @ shown d ''url'')
                      (filter (\<lambda>d. d ''raw_content'' = Some PNone) rs)"
    using format_stdout [OF fm titles, of m True] by (simp add: warning_lines_def assms(3))
  from one two three show ?thesis by (intro conjI)
qed

theorem missing_raw_content_witness:
  "(0::int) \<le> 10 \<and> well_formed (store example_world 2) \<and> well_formed (store example_world 4)
   \<and> well_formed (store example_world 1)
   \<and> stdout (snd (deduplicate_and_format_sources example_world [2, 4, 1] 10 True)) =
       [''Warning: No raw_content found for source u2'']"
proof -
  have m: "(0::int) \<le> 10"
    by simp
  have wf: "\<forall>a\<in>set [2, 4, 1]. well_formed (store example_world a)"
    by (simp add: example_world_def example_store_def well_formed_def)
  have ret: "retained (map (store example_world) [2, 4, 1]) =
      [renamed (example_store 2), renamed (example_store 4), renamed (example_store 1)]"
    by (simp add: retained_def example_world_def example_store_def)
  note t = missing_raw_content [OF m wf refl, THEN conjunct2, THEN conjunct2]
  have "stdout (snd (deduplicate_and_format_sources example_world [2, 4, 1] 10 True)) =
       [''Warning: No raw_content found for source u2'']"
    unfolding t ret
    by (simp add: example_world_def example_store_def shown_def renamed_def)
  moreover from wf have "well_formed (store example_world 2)"
    and "well_formed (store example_world 4)" and "well_formed (store example_world 1)"
    by simp_all
  ultimately show ?thesis
    using m by (intro conjI)
qed

text \<open>
  C3 as stated fails: record 4 of the examples has the empty string as raw content and
  record 1 has no raw content at all; both are rendered with an empty body, and no
  warning is printed.
\<close>

theorem missing_raw_content_counterexample:
  "store example_world 4 ''raw_content'' = Some (PStr '''')
   \<and> store example_world 1 ''raw_content'' = None
   \<and> fst (deduplicate_and_format_sources example_world [4, 1] 10 True) =
       Inr ''Sources:\<newline>\<newline>Source E:\<newline>===\<newline>URL: u4\<newline>===\<newline>Most relevant content from source: s5\<newline>===\<newline>Full source content limited to 10 tokens: \<newline>\<newline>Source B:\<newline>===\<newline>URL: u1\<newline>===\<newline>Most relevant content from source: s2\<newline>===\<newline>Full source content limited to 10 tokens:''
   \<and> stdout (snd (deduplicate_and_format_sources example_world [4, 1] 10 True)) = []"
proof -
  have wf: "\<forall>a\<in>set [4, 1]. well_formed (store example_world a)"
    by (simp add: example_world_def example_store_def well_formed_def)
  have fm: "first_missing (map (store example_world) [4, 1]) = None"
    by (simp add: example_world_def example_store_def)
  have ret: "retained (map (store example_world) [4, 1]) =
      [renamed (example_store 4), renamed (example_store 1)]"
    by (simp add: retained_def example_world_def example_store_def)
  have titles: "\<forall>d\<in>set (retained (map (store example_world) [4, 1])). d ''title'' \<noteq> None"
    unfolding ret by (simp add: example_store_def)
  have out: "fst (deduplicate_and_format_sources example_world [4, 1] 10 True) =
       Inr ''Sources:\<newline>\<newline>Source E:\<newline>===\<newline>URL: u4\<newline>===\<newline>Most relevant content from source: s5\<newline>===\<newline>Full source content limited to 10 tokens: \<newline>\<newline>Source B:\<newline>===\<newline>URL: u1\<newline>===\<newline>Most relevant content from source: s2\<newline>===\<newline>Full source content limited to 10 tokens:''"
    unfolding format_well_formed [OF wf] report_def ret
    by (simp add: block_def head_lines_def shown_def raw_body_def renamed_def str_int_10
        limit_raw_content_def example_store_def strip_def isspace_def)
  have pr: "stdout (snd (deduplicate_and_format_sources example_world [4, 1] 10 True)) = []"
    unfolding format_stdout [OF fm titles] ret
    by (simp add: warning_lines_def example_world_def example_store_def renamed_def)
  have r4: "store example_world 4 ''raw_content'' = Some (PStr '''')"
    by (simp add: example_world_def example_store_def)
  have r1: "store example_world 1 ''raw_content'' = None"
    by (simp add: example_world_def example_store_def)
  from r4 r1 out pr show ?thesis by (intro conjI)
qed



text \<open>
  C5. For well-formed records, the blocks of the report stand in the order of the input
  positions at which a link occurs for the first time: the report is the banner followed
  by the block of record \<open>i\<close>, for the positions \<open>i\<close> in increasing order such that no
  earlier position holds a record with the same link, however many duplicates follow.
\<close>

theorem first_seen_order:
  assumes "\<forall>a\<in>set as. well_formed (store w a)" and "rs = map (store w) as"
  shows "fst (deduplicate_and_format_sources w as m inc) =
     Inr (strip (''Sources:\<newline>\<newline>'' @ concat (map (\<lambda>i. block m inc (renamed (rs ! i)))
        (filter (\<lambda>i. \<forall>j<i. (rs ! j) ''link'' \<noteq> (rs ! i) ''link'') [0..<length rs]))))"
proof -
  have "retained rs = map (\<lambda>i. renamed (rs ! i))
      (filter (\<lambda>i. \<forall>j<i. (rs ! j) ''link'' \<noteq> (rs ! i) ''link'') [0..<length rs])"
    by (simp add: retained_def first_seen_index [of "{}"] comp_def)
  then show ?thesis
    using format_well_formed [OF assms(1), of m inc]
    by (simp add: report_def assms(2) comp_def)
qed

theorem first_seen_order_witness:
  "well_formed (store example_world 2) \<and> well_formed (store example_world 0)
   \<and> well_formed (store example_world 1) \<and> well_formed (store example_world 5)
   \<and> fst (deduplicate_and_format_sources example_world [2, 0, 1, 2, 5] 10 False) =
       Inr ''Sources:\<newline>\<newline>Source C:\<newline>===\<newline>URL: u2\<newline>===\<newline>Most relevant content from source: s3\<newline>===\<newline>Source A:\<newline>===\<newline>URL: u1\<newline>===\<newline>Most relevant content from source: s1\<newline>===\<newline>Source F:\<newline>===\<newline>URL: u5\<newline>===\<newline>Most relevant content from source: s6\<newline>===''"
proof -
  have wf: "\<forall>a\<in>set [2, 0, 1, 2, 5]. well_formed (store example_world a)"
    by (simp add: example_world_def example_store_def well_formed_def)
  let ?rs = "map (store example_world) [2, 0, 1, 2, 5]"
  have rs: "?rs = [example_store 2, example_store 0, example_store 1, example_store 2, example_store 5]"
    by (simp add: example_world_def)
  have idx: "filter (\<lambda>i. \<forall>j<i. (?rs ! j) ''link'' \<noteq> (?rs ! i) ''link'') [0..<length ?rs] = [0, 1, 4]"
    unfolding rs
    by (simp add: upt_rec [of 0] upt_rec [of "Suc _"] numeral_eq_Suc All_less_Suc example_store_def
        del: upt_Suc upt.simps)
  note t = first_seen_order [OF wf refl, of 10 False]
  have "fst (deduplicate_and_format_sources example_world [2, 0, 1, 2, 5] 10 False) =
       Inr ''Sources:\<newline>\<newline>Source C:\<newline>===\<newline>URL: u2\<newline>===\<newline>Most relevant content from source: s3\<newline>===\<newline>Source A:\<newline>===\<newline>URL: u1\<newline>===\<newline>Most relevant content from source: s1\<newline>===\<newline>Source F:\<newline>===\<newline>URL: u5\<newline>===\<newline>Most relevant content from source: s6\<newline>===''"
    unfolding t idx unfolding rs
    by (simp add: block_def head_lines_def shown_def renamed_def
        example_store_def strip_def isspace_def)
  moreover from wf have "well_formed (store example_world 2)"
    and "well_formed (store example_world 0)" and "well_formed (store example_world 1)"
    and "well_formed (store example_world 5)"
    by simp_all
  ultimately show ?thesis
    by (intro conjI)
qed

text \<open>
  C6. For well-formed records the function returns one string; the string begins with
  \<open>Sources:\<close>, and its last character is not white space. The string depends only on
  the values of the records in their order, the token budget and the flag: any call on
  records with the same values returns the same string, and so does a second call on the
  records as the first call left them.
\<close>

theorem report_shape_deterministic:
  assumes "\<forall>a\<in>set as. well_formed (store w a)"
  shows "\<exists>out. fst (deduplicate_and_format_sources w as m inc) = Inr out
     \<and> take 8 out = ''Sources:''
     \<and> \<not> isspace (last out)
     \<and> (\<forall>(w'::world) as'. map (store w') as' = map (store w) as \<longrightarrow>
            fst (deduplicate_and_format_sources w' as' m inc) = Inr out)
     \<and> fst (deduplicate_and_format_sources
              (snd (deduplicate_and_format_sources w as m inc)) as m inc) = Inr out"
proof -
  let ?rs = "map (store w) as"
  let ?out = "report m inc ?rs"
  have one: "fst (deduplicate_and_format_sources w as m inc) = Inr ?out"
    by (rule format_well_formed [OF assms])
  obtain t where t: "?out = ''Sources:'' @ t"
    unfolding report_def strip_banner by blast
  then have two: "take 8 ?out = ''Sources:''"
    by simp
  from t have "?out \<noteq> []"
    by simp
  then have three: "\<not> isspace (last ?out)"
    unfolding report_def by (rule strip_last)
  have four: "\<forall>(w'::world) as'. map (store w') as' = map (store w) as \<longrightarrow>
            fst (deduplicate_and_format_sources w' as' m inc) = Inr ?out"
  proof (intro allI impI)
    fix w' :: world and as'
    assume eq: "map (store w') as' = map (store w) as"
    show "fst (deduplicate_and_format_sources w' as' m inc) = Inr ?out"
      using one by (simp only: format_result eq)
  qed
  let ?w2 = "snd (deduplicate_and_format_sources w as m inc)"
  have fm: "first_missing ?rs = None"
    using assms by (simp add: first_missing_None well_formed_def)
  have st: "map (store ?w2) as = map renamed ?rs"
    unfolding format_store [OF fm] by simp
  have wf2: "\<forall>a\<in>set as. well_formed (store ?w2 a)"
    using assms unfolding format_store [OF fm] by simp
  have five: "fst (deduplicate_and_format_sources ?w2 as m inc) = Inr ?out"
    unfolding format_well_formed [OF wf2] st report_def retained_renamed ..
  from one two three four five show ?thesis by blast
qed

theorem report_shape_deterministic_witness:
  "well_formed (store example_world 0) \<and> well_formed (store example_world 1)
   \<and> well_formed (store example_world 2)
   \<and> (\<exists>out. fst (deduplicate_and_format_sources example_world [0, 1, 2] 10 True) = Inr out
     \<and> take 8 out = ''Sources:''
     \<and> \<not> isspace (last out)
     \<and> (\<forall>(w'::world) as'. map (store w') as' = map (store example_world) [0, 1, 2] \<longrightarrow>
            fst (deduplicate_and_format_sources w' as' 10 True) = Inr out)
     \<and> fst (deduplicate_and_format_sources
              (snd (deduplicate_and_format_sources example_world [0, 1, 2] 10 True))
              [0, 1, 2] 10 True) = Inr out)"
proof -
  have wf: "\<forall>a\<in>set [0, 1, 2]. well_formed (store example_world a)"
    by (simp add: example_world_def example_store_def well_formed_def)
  from wf have "well_formed (store example_world 0)" and "well_formed (store example_world 1)"
    and "well_formed (store example_world 2)"
    by simp_all
  with report_shape_deterministic [OF wf, of 10 True] show ?thesis
    by (intro conjI)
qed

text \<open>
  C7. For records that each have a title and a URL, \<^verbatim>\<open>format_sources\<close> returns the
  lines of the records joined by newlines: there is one line for every record, in the
  order of the input, and line \<open>i\<close> is exactly \<open>* title : url\<close> of record \<open>i\<close>. No
  record is dropped and no text is cut. Joined by newlines means that the result followed
  by a newline is the concatenation of the lines, each followed by a newline. On the
  records (A, u1) and (B, u2) the result is \<open>* A : u1\<close>, a newline, \<open>* B : u2\<close>.
\<close>

theorem bullet_sources:
  assumes "\<forall>d\<in>set rs. d ''title'' \<noteq> None \<and> d ''url'' \<noteq> None"
  shows "\<exists>ls. format_sources rs = Inr (str_join ''\<newline>'' ls)
     \<and> length ls = length rs
     \<and> (\<forall>i<length rs. ls ! i = ''* '' @ shown (rs ! i) ''title'' @ '' : '' @ shown (rs ! i) ''url'')
     \<and> (ls \<noteq> [] \<longrightarrow> str_join ''\<newline>'' ls @ ''\<newline>'' = concat (map (\<lambda>l. l @ ''\<newline>'') ls))
     \<and> format_sources [[''title'' \<mapsto> PStr ''A'', ''url'' \<mapsto> PStr ''u1''],
                        [''title'' \<mapsto> PStr ''B'', ''url'' \<mapsto> PStr ''u2'']]
         = Inr ''* A : u1\<newline>* B : u2''"
proof -
  let ?ls = "map (\<lambda>d. ''* '' @ shown d ''title'' @ '' : '' @ shown d ''url'') rs"
  have one: "format_sources rs = Inr (str_join ''\<newline>'' ?ls)"
    by (simp add: format_sources_def bullet_lines_ok [OF assms])
  have two: "length ?ls = length rs"
    by simp
  have three: "\<forall>i<length rs. ?ls ! i = ''* '' @ shown (rs ! i) ''title'' @ '' : '' @ shown (rs ! i) ''url''"
    by simp
  have four: "?ls \<noteq> [] \<longrightarrow> str_join ''\<newline>'' ?ls @ ''\<newline>'' = concat (map (\<lambda>l. l @ ''\<newline>'') ?ls)"
    using str_join_sep [of ?ls "''\<newline>''"] by blast
  have five: "format_sources [[''title'' \<mapsto> PStr ''A'', ''url'' \<mapsto> PStr ''u1''],
                        [''title'' \<mapsto> PStr ''B'', ''url'' \<mapsto> PStr ''u2'']]
         = Inr ''* A : u1\<newline>* B : u2''"
    by (simp add: format_sources_def getitem_def)
  from one two three four five show ?thesis by blast
qed

theorem bullet_sources_witness:
  "renamed (example_store 0) ''title'' \<noteq> None \<and> renamed (example_store 0) ''url'' \<noteq> None
   \<and> renamed (example_store 1) ''title'' \<noteq> None \<and> renamed (example_store 1) ''url'' \<noteq> None
   \<and> format_sources [renamed (example_store 0), renamed (example_store 1)]
       = Inr ''* A : u1\<newline>* B : u1''"
proof -
  let ?rs = "[renamed (example_store 0), renamed (example_store 1)]"
  have h: "\<forall>d\<in>set ?rs. d ''title'' \<noteq> None \<and> d ''url'' \<noteq> None"
    by (simp add: example_store_def renamed_def)
  from bullet_sources [OF h] obtain ls where
    f: "format_sources ?rs = Inr (str_join ''\<newline>'' ls)" and
    l: "length ls = length ?rs" and
    n: "\<forall>i<length ?rs. ls ! i = ''* '' @ shown (?rs ! i) ''title'' @ '' : '' @ shown (?rs ! i) ''url''"
    by blast
  from l obtain a b where ab: "ls = [a, b]"
    by (cases ls; cases "tl ls") auto
  from n have "ls ! 0 = ''* A : u1''" and "ls ! 1 = ''* B : u1''"
    by (simp_all add: shown_def example_store_def renamed_def)
  with ab have "ls = [''* A : u1'', ''* B : u1'']"
    by simp
  with f have "format_sources ?rs = Inr ''* A : u1\<newline>* B : u1''"
    by simp
  with h show ?thesis by simp
qed

text \<open>
  C1 (as the code has it). With a token budget \<open>m\<close> that is not negative, the raw
  content included and well-formed records, the returned string is the banner, the blocks
  of all retained records but the last, and the last block up to \<open>tokens:\<close> followed by
  what the final trim leaves of the space and the body. The body of a block is the raw
  body cut to exactly \<open>4 * m\<close> characters and followed by the marker
  \<open>... [truncated]\<close> when the raw body is longer than \<open>4 * m\<close> characters, and the raw
  body itself, without a marker, when its length is at most \<open>4 * m\<close>. The final trim
  removes the white space at the end of the last body, and the space before the body too
  when nothing of the body remains; it leaves a body that ends in the marker as it is, and
  any body that is not empty and does not end in white space. For \<open>m = 10\<close> the limit
  is 40 characters.
\<close>

theorem truncation_bound:
  assumes "0 \<le> m" and "\<forall>a\<in>set as. well_formed (store w a)"
    and "retained (map (store w) as) = ds @ [d]"
  shows "fst (deduplicate_and_format_sources w as m True) =
      Inr (''Sources:\<newline>\<newline>''
        @ concat (map
            (\<lambda>r. head_lines r @ ''Full source content limited to '' @ str_int m @ '' tokens: ''
               @ (if 4 * m < int (length (raw_body r))
                  then take (nat (4 * m)) (raw_body r) @ ''... [truncated]''
                  else raw_body r)
               @ ''\<newline>\<newline>'')
            ds)
        @ head_lines d @ ''Full source content limited to '' @ str_int m @ '' tokens:''
        @ rstrip ('' '' @ (if 4 * m < int (length (raw_body d))
                            then take (nat (4 * m)) (raw_body d) @ ''... [truncated]''
                            else raw_body d)))
    \<and> (\<forall>s. rstrip ('' '' @ s) = (if rstrip s = [] then [] else '' '' @ rstrip s))
    \<and> (\<forall>s. rstrip ('' '' @ s @ ''... [truncated]'') = '' '' @ s @ ''... [truncated]'')
    \<and> (\<forall>s. s \<noteq> [] \<and> \<not> isspace (last s) \<longrightarrow> rstrip ('' '' @ s) = '' '' @ s)
    \<and> (\<forall>r. 4 * m < int (length (raw_body r)) \<longrightarrow>
           int (length (take (nat (4 * m)) (raw_body r))) = 4 * m)
    \<and> (\<forall>s. limit_raw_content (10 * 4) s =
           (if 40 < length s then take 40 s @ ''... [truncated]'' else s))"
proof -
  let ?body = "\<lambda>r. if 4 * m < int (length (raw_body r))
      then take (nat (4 * m)) (raw_body r) @ ''... [truncated]'' else raw_body r"
  let ?blk = "\<lambda>r. head_lines r @ ''Full source content limited to '' @ str_int m @ '' tokens: ''
      @ ?body r @ ''\<newline>\<newline>''"
  have blk: "block m True = ?blk"
    by (rule ext) (simp add: block_def limit_raw_content_nonneg [OF assms(1)])
  have "fst (deduplicate_and_format_sources w as m True) =
      Inr (strip (''Sources:\<newline>\<newline>'' @ concat (map ?blk (ds @ [d]))))"
    using format_well_formed [OF assms(2), of m True]
    unfolding report_def blk assms(3) .
  also have "strip (''Sources:\<newline>\<newline>'' @ concat (map ?blk (ds @ [d]))) =
      strip (''Sources:\<newline>\<newline>'' @ concat (map ?blk ds)
        @ (head_lines d @ ''Full source content limited to '' @ str_int m) @ '' tokens: ''
        @ ?body d @ ''\<newline>\<newline>'')"
    by simp
  also have "\<dots> = ''Sources:\<newline>\<newline>'' @ concat (map ?blk ds)
        @ (head_lines d @ ''Full source content limited to '' @ str_int m) @ '' tokens:''
        @ rstrip ('' '' @ ?body d)"
    by (rule strip_report_last)
  finally have one: "fst (deduplicate_and_format_sources w as m True) =
      Inr (''Sources:\<newline>\<newline>'' @ concat (map ?blk ds)
        @ head_lines d @ ''Full source content limited to '' @ str_int m @ '' tokens:''
        @ rstrip ('' '' @ ?body d))"
    by simp
  have trim: "\<forall>s. rstrip ('' '' @ s) = (if rstrip s = [] then [] else '' '' @ rstrip s)"
    using rstrip_space_body by blast
  have two: "\<forall>s. rstrip ('' '' @ s @ ''... [truncated]'') = '' '' @ s @ ''... [truncated]''"
  proof
    fix s :: string
    show "rstrip ('' '' @ s @ ''... [truncated]'') = '' '' @ s @ ''... [truncated]''"
      by (rule rstrip_id) (simp_all add: isspace_def)
  qed
  have three: "\<forall>s. s \<noteq> [] \<and> \<not> isspace (last s) \<longrightarrow> rstrip ('' '' @ s) = '' '' @ s"
    by (simp add: rstrip_id)
  have four: "\<forall>r. 4 * m < int (length (raw_body r)) \<longrightarrow>
           int (length (take (nat (4 * m)) (raw_body r))) = 4 * m"
    using assms(1) by auto
  have five: "\<forall>s. limit_raw_content (10 * 4) s =
           (if 40 < length s then take 40 s @ ''... [truncated]'' else s)"
    using limit_raw_content_nonneg [of 10] by simp
  from one trim two three four five show ?thesis
    by (intro conjI)
qed

theorem truncation_bound_witness:
  "(0::int) \<le> 10 \<and> well_formed (store example_world 0) \<and> well_formed (store example_world 5)
   \<and> retained (map (store example_world) [0, 5]) =
       [renamed (example_store 0)] @ [renamed (example_store 5)]
   \<and> fst (deduplicate_and_format_sources example_world [0, 5] 10 True) =
       Inr ''Sources:\<newline>\<newline>Source A:\<newline>===\<newline>URL: u1\<newline>===\<newline>Most relevant content from source: s1\<newline>===\<newline>Full source content limited to 10 tokens: 0123456789012345678901234567890123456789... [truncated]\<newline>\<newline>Source F:\<newline>===\<newline>URL: u5\<newline>===\<newline>Most relevant content from source: s6\<newline>===\<newline>Full source content limited to 10 tokens: 0123456789012345678901234567890123456789''"
proof -
  have m: "(0::int) \<le> 10"
    by simp
  have wf: "\<forall>a\<in>set [0, 5]. well_formed (store example_world a)"
    by (simp add: example_world_def example_store_def well_formed_def)
  have ret: "retained (map (store example_world) [0, 5]) =
      [renamed (example_store 0)] @ [renamed (example_store 5)]"
    by (simp add: retained_def example_world_def example_store_def)
  note t = truncation_bound [OF m wf ret, THEN conjunct1]
  have "fst (deduplicate_and_format_sources example_world [0, 5] 10 True) =
       Inr ''Sources:\<newline>\<newline>Source A:\<newline>===\<newline>URL: u1\<newline>===\<newline>Most relevant content from source: s1\<newline>===\<newline>Full source content limited to 10 tokens: 0123456789012345678901234567890123456789... [truncated]\<newline>\<newline>Source F:\<newline>===\<newline>URL: u5\<newline>===\<newline>Most relevant content from source: s6\<newline>===\<newline>Full source content limited to 10 tokens: 0123456789012345678901234567890123456789''"
    unfolding t
    by (simp add: str_int_10 head_lines_def shown_def raw_body_def renamed_def
        example_store_def rstrip_def isspace_def)
  moreover from wf have "well_formed (store example_world 0)" and "well_formed (store example_world 5)"
    by simp_all
  ultimately show ?thesis
    using m ret by (intro conjI)
qed

text \<open>
  C1 as stated fails: record 6 of the examples has the raw body \<open>abc\<close> followed by a
  space, which is within the limit of 40 characters, and the string returned for it ends
  in \<open>abc\<close>: the space at the end of the body is gone.
\<close>

theorem body_unchanged_counterexample:
  "store example_world 6 ''raw_content'' = Some (PStr ''abc '')
   \<and> int (length ''abc '') \<le> 10 * 4
   \<and> fst (deduplicate_and_format_sources example_world [6] 10 True) =
       Inr ''Sources:\<newline>\<newline>Source G:\<newline>===\<newline>URL: u6\<newline>===\<newline>Most relevant content from source: s7\<newline>===\<newline>Full source content limited to 10 tokens: abc''"
proof -
  have wf: "\<forall>a\<in>set [6]. well_formed (store example_world a)"
    by (simp add: example_world_def example_store_def well_formed_def)
  have ret: "retained (map (store example_world) [6]) = [renamed (example_store 6)]"
    by (simp add: retained_def example_world_def example_store_def)
  have out: "fst (deduplicate_and_format_sources example_world [6] 10 True) =
       Inr ''Sources:\<newline>\<newline>Source G:\<newline>===\<newline>URL: u6\<newline>===\<newline>Most relevant content from source: s7\<newline>===\<newline>Full source content limited to 10 tokens: abc''"
    unfolding format_well_formed [OF wf] report_def ret
    by (simp add: block_def head_lines_def shown_def raw_body_def renamed_def str_int_10
        limit_raw_content_def example_store_def strip_def isspace_def)
  have raw: "store example_world 6 ''raw_content'' = Some (PStr ''abc '')"
    by (simp add: example_world_def example_store_def)
  have len: "int (length ''abc '') \<le> 10 * 4"
    by simp
  from raw len out show ?thesis by (intro conjI)
qed

text \<open>
  C4 (as the code has it). The function writes to its input records. After the call has
  returned, and more generally whenever every record of the input has \<open>link\<close> and
  \<open>snippet\<close>, every record of the input list, retained or dropped as a duplicate, has
  its field \<open>url\<close> set to the value of \<open>link\<close> and its field \<open>content\<close> set to the
  value of \<open>snippet\<close>, added or overwritten. When a record lacks \<open>link\<close> or
  \<open>snippet\<close>, the records before the first such record are rewritten in that way, that
  record gets \<open>url\<close> when it has a link, and the records after it are not touched. In
  every case all other fields of the input records, and all records that are not in the
  list, are left as they were.
\<close>

theorem records_renamed_in_place:
  "((\<exists>out. fst (deduplicate_and_format_sources w as m inc) = Inr out) \<longrightarrow>
      store (snd (deduplicate_and_format_sources w as m inc)) =
        (\<lambda>c. if c \<in> set as
             then (store w c)(''url'' := store w c ''link'', ''content'' := store w c ''snippet'')
             else store w c))
   \<and> ((\<forall>a\<in>set as. store w a ''link'' \<noteq> None \<and> store w a ''snippet'' \<noteq> None) \<longrightarrow>
      store (snd (deduplicate_and_format_sources w as m inc)) =
        (\<lambda>c. if c \<in> set as
             then (store w c)(''url'' := store w c ''link'', ''content'' := store w c ''snippet'')
             else store w c))
   \<and> (\<forall>xs a ys. as = xs @ a # ys
        \<and> (\<forall>x\<in>set xs. store w x ''link'' \<noteq> None \<and> store w x ''snippet'' \<noteq> None)
        \<and> (store w a ''link'' = None \<or> store w a ''snippet'' = None) \<longrightarrow>
      store (snd (deduplicate_and_format_sources w as m inc)) =
        (\<lambda>c. if c \<in> set xs
             then (store w c)(''url'' := store w c ''link'', ''content'' := store w c ''snippet'')
             else if c = a \<and> store w a ''link'' \<noteq> None
             then (store w a)(''url'' := store w a ''link'')
             else store w c))"
proof (intro conjI impI allI)
  assume "\<exists>out. fst (deduplicate_and_format_sources w as m inc) = Inr out"
  then have "first_missing (map (store w) as) = None"
    by (auto dest: returned_no_missing)
  then have "store (snd (deduplicate_and_format_sources w as m inc)) =
     (\<lambda>c. if c \<in> set as then renamed (store w c) else store w c)"
    by (rule format_store)
  then show "store (snd (deduplicate_and_format_sources w as m inc)) =
        (\<lambda>c. if c \<in> set as
             then (store w c)(''url'' := store w c ''link'', ''content'' := store w c ''snippet'')
             else store w c)"
    unfolding renamed_def .
next
  assume "\<forall>a\<in>set as. store w a ''link'' \<noteq> None \<and> store w a ''snippet'' \<noteq> None"
  then have "first_missing (map (store w) as) = None"
    by (simp add: first_missing_None)
  then have "store (snd (deduplicate_and_format_sources w as m inc)) =
     (\<lambda>c. if c \<in> set as then renamed (store w c) else store w c)"
    by (rule format_store)
  then show "store (snd (deduplicate_and_format_sources w as m inc)) =
        (\<lambda>c. if c \<in> set as
             then (store w c)(''url'' := store w c ''link'', ''content'' := store w c ''snippet'')
             else store w c)"
    unfolding renamed_def .
next
  fix xs a ys
  assume h: "as = xs @ a # ys
      \<and> (\<forall>x\<in>set xs. store w x ''link'' \<noteq> None \<and> store w x ''snippet'' \<noteq> None)
      \<and> (store w a ''link'' = None \<or> store w a ''snippet'' = None)"
  then have "snd (dedup_loop (store w) [] (xs @ a # ys)) =
     (\<lambda>c. if c \<in> set xs then renamed (store w c)
          else if c = a \<and> store w a ''link'' \<noteq> None then (store w a)(''url'' := store w a ''link'')
          else store w c)"
    by (intro dedup_loop_store_failed) simp_all
  with h show "store (snd (deduplicate_and_format_sources w as m inc)) =
        (\<lambda>c. if c \<in> set xs
             then (store w c)(''url'' := store w c ''link'', ''content'' := store w c ''snippet'')
             else if c = a \<and> store w a ''link'' \<noteq> None
             then (store w a)(''url'' := store w a ''link'')
             else store w c)"
    unfolding format_store_loop renamed_def by simp
qed

theorem records_renamed_in_place_witness:
  "fst (deduplicate_and_format_sources example_world [0, 1] 10 True) =
       Inr (report 10 True (map (store example_world) [0, 1]))
   \<and> store (snd (deduplicate_and_format_sources example_world [0, 1] 10 True)) 1 =
       [''title'' \<mapsto> PStr ''B'', ''link'' \<mapsto> PStr ''u1'', ''snippet'' \<mapsto> PStr ''s2'',
        ''url'' \<mapsto> PStr ''u1'', ''content'' \<mapsto> PStr ''s2'']
   \<and> store (snd (deduplicate_and_format_sources example_world [0, 1] 10 True)) 2 =
       store example_world 2
   \<and> store example_world 0 ''link'' \<noteq> None \<and> store example_world 0 ''snippet'' \<noteq> None
   \<and> store example_world 8 ''snippet'' = None
   \<and> store (snd (deduplicate_and_format_sources example_world ([0] @ 8 # [1]) 10 True)) 0 ''url''
       = Some (PStr ''u1'')
   \<and> store (snd (deduplicate_and_format_sources example_world ([0] @ 8 # [1]) 10 True)) 8 =
       [''title'' \<mapsto> PStr ''H'', ''link'' \<mapsto> PStr ''u8'', ''url'' \<mapsto> PStr ''u8'']
   \<and> store (snd (deduplicate_and_format_sources example_world ([0] @ 8 # [1]) 10 True)) 1 =
       store example_world 1"
proof -
  have wf: "\<forall>a\<in>set [0, 1]. well_formed (store example_world a)"
    by (simp add: example_world_def example_store_def well_formed_def)
  have ret: "fst (deduplicate_and_format_sources example_world [0, 1] 10 True) =
       Inr (report 10 True (map (store example_world) [0, 1]))"
    by (rule format_well_formed [OF wf])
  then have ex: "\<exists>out. fst (deduplicate_and_format_sources example_world [0, 1] 10 True) = Inr out"
    by blast
  note t1 = records_renamed_in_place [of example_world "[0, 1]" 10 True,
      THEN conjunct1, THEN mp, OF ex]
  have a1: "store (snd (deduplicate_and_format_sources example_world [0, 1] 10 True)) 1 =
       [''title'' \<mapsto> PStr ''B'', ''link'' \<mapsto> PStr ''u1'', ''snippet'' \<mapsto> PStr ''s2'',
        ''url'' \<mapsto> PStr ''u1'', ''content'' \<mapsto> PStr ''s2'']"
    unfolding t1 by (simp add: example_world_def example_store_def)
  have a2: "store (snd (deduplicate_and_format_sources example_world [0, 1] 10 True)) 2 =
       store example_world 2"
    unfolding t1 by simp
  have h0: "store example_world 0 ''link'' \<noteq> None \<and> store example_world 0 ''snippet'' \<noteq> None"
    by (simp add: example_world_def example_store_def)
  have h8: "store example_world 8 ''snippet'' = None"
    by (simp add: example_world_def example_store_def)
  have hyp: "[0] @ 8 # [1] = [0] @ 8 # [1::nat]
      \<and> (\<forall>x\<in>set [0]. store example_world x ''link'' \<noteq> None \<and> store example_world x ''snippet'' \<noteq> None)
      \<and> (store example_world 8 ''link'' = None \<or> store example_world 8 ''snippet'' = None)"
    using h0 h8 by simp
  note t2 = records_renamed_in_place [of example_world "[0] @ 8 # [1]" 10 True,
      THEN conjunct2, THEN conjunct2, THEN spec, THEN spec, THEN spec, THEN mp, OF hyp]
  have b0: "store (snd (deduplicate_and_format_sources example_world ([0] @ 8 # [1]) 10 True)) 0 ''url''
       = Some (PStr ''u1'')"
    unfolding t2 by (simp add: example_world_def example_store_def)
  have b8: "store (snd (deduplicate_and_format_sources example_world ([0] @ 8 # [1]) 10 True)) 8 =
       [''title'' \<mapsto> PStr ''H'', ''link'' \<mapsto> PStr ''u8'', ''url'' \<mapsto> PStr ''u8'']"
    unfolding t2 by (simp add: example_world_def example_store_def)
  have b1: "store (snd (deduplicate_and_format_sources example_world ([0] @ 8 # [1]) 10 True)) 1 =
       store example_world 1"
    unfolding t2 by simp
  from ret a1 a2 h0 h8 b0 b8 b1 show ?thesis
    by (intro conjI) simp_all
qed

text \<open>
  C4 as stated fails: record 1 of the examples, a duplicate that is dropped from the
  report, has no field \<open>url\<close> before the call and has the fields \<open>url\<close> and \<open>content\<close>
  after it.
\<close>

theorem records_unchanged_counterexample:
  "store example_world 1 ''url'' = None
   \<and> store (snd (deduplicate_and_format_sources example_world [0, 1] 10 True)) 1 ''url''
       = Some (PStr ''u1'')
   \<and> store (snd (deduplicate_and_format_sources example_world [0, 1] 10 True)) 1 ''content''
       = Some (PStr ''s2'')"
proof -
  have "first_missing (map (store example_world) [0, 1]) = None"
    by (simp add: example_world_def example_store_def)
  from format_store [OF this, of 10 True] show ?thesis
    by (simp add: example_world_def example_store_def renamed_def)
qed

text \<open>
  C8 (as the code has it). Whatever the search backend does, \<^verbatim>\<open>searxng_search\<close> calls
  it exactly once, with the fixed configuration, the query, the result limit and the
  flag, and hands its outcome to the caller as it is. When the call fails, the caller
  gets the exception the backend raised, with its class and message, not caught, not
  wrapped, not retried and with no other backend tried; the function raises nothing of its
  own. When the call succeeds, the caller gets the backend's list, in the backend's order.
\<close>

theorem search_passes_through:
  fixes results :: "searx_wrapper \<Rightarrow> string \<Rightarrow> int \<Rightarrow> bool \<Rightarrow> 'n \<Rightarrow> (py_exception + 'r list) \<times> 'n"
  assumes "cfg = \<lparr>searx_host = ''http://127.0.0.1:8080'', unsecure = True,
                   searx_k = max_results, engines = [''google'']\<rparr>"
  shows "(\<forall>e net'. results cfg query max_results inc net = (Inl e, net') \<longrightarrow>
            searxng_search results query inc max_results net = (Inl e, net'))
       \<and> (\<forall>rs net'. results cfg query max_results inc net = (Inr rs, net') \<longrightarrow>
            searxng_search results query inc max_results net = (Inr rs, net'))
       \<and> (\<forall>e net'. searxng_search results query inc max_results net = (Inl e, net') \<longrightarrow>
            results cfg query max_results inc net = (Inl e, net'))
       \<and> snd (snd (searxng_search (counted results) query inc max_results (net, n))) = Suc n"
proof -
  have call: "searxng_search results query inc max_results net =
      results cfg query max_results inc net"
    by (simp add: searxng_search_def assms)
  have cnt: "searxng_search (counted results) query inc max_results (net, n) =
      counted results cfg query max_results inc (net, n)"
    by (simp add: searxng_search_def assms)
  have "snd (snd (counted results cfg query max_results inc (net, n))) = Suc n"
    by (simp add: counted_def split_beta)
  with call cnt show ?thesis
    by simp
qed

theorem search_passes_through_witness:
  "searxng_search example_backend ''down'' True 3 [''earlier''] =
       (Inl (PyException ''ConnectionError'' ''connection refused''), [''earlier'', ''down''])
   \<and> searxng_search example_backend ''isabelle'' True 3 []
       = (Inr [example_store 1, example_store 0], [''isabelle''])
   \<and> snd (snd (searxng_search (counted example_backend) ''down'' True 3 ([], 0))) = Suc 0"
proof -
  have a: "example_backend \<lparr>searx_host = ''http://127.0.0.1:8080'', unsecure = True,
                   searx_k = 3, engines = [''google'']\<rparr> ''down'' 3 True [''earlier'']
           = (Inl (PyException ''ConnectionError'' ''connection refused''), [''earlier'', ''down''])"
    by (simp add: example_backend_def)
  have b: "example_backend \<lparr>searx_host = ''http://127.0.0.1:8080'', unsecure = True,
                   searx_k = 3, engines = [''google'']\<rparr> ''isabelle'' 3 True []
           = (Inr [example_store 1, example_store 0], [''isabelle''])"
    by (simp add: example_backend_def)
  note t1 = search_passes_through [OF refl, where results = example_backend
      and max_results = 3 and inc = True and net = "[''earlier'']" and query = "''down''"]
  note t2 = search_passes_through [OF refl, where results = example_backend
      and max_results = 3 and inc = True and net = "[]" and query = "''isabelle''"]
  note t3 = search_passes_through [OF refl, where results = example_backend
      and max_results = 3 and inc = True and net = "[]" and query = "''down''" and n = 0]
  from t1 [THEN conjunct1, THEN spec, THEN spec, THEN mp, OF a]
       t2 [THEN conjunct2, THEN conjunct1, THEN spec, THEN spec, THEN mp, OF b]
       t3 [THEN conjunct2, THEN conjunct2, THEN conjunct2]
  show ?thesis by (intro conjI)
qed

text \<open>
  C8 as stated fails: when the example backend refuses the connection, the caller gets
  the exception of class \<open>ConnectionError\<close> that the backend raised, and that is not a
  \<open>SearchBackendError\<close>.
\<close>

theorem search_error_not_wrapped_counterexample:
  "searxng_search example_backend ''down'' True 3 [] =
       (Inl (PyException ''ConnectionError'' ''connection refused''), [''down''])
   \<and> exception_class (PyException ''ConnectionError'' ''connection refused'')
       \<noteq> ''SearchBackendError''"
  by (simp add: searxng_search_def example_backend_def)

end
